theory Spec2Isabelle
  imports Main
begin

section \<open>Time values\<close>

text \<open>
  Python's \<open>datetime\<close> and \<open>timedelta\<close> count whole microseconds. An instant is the
  number of microseconds since the epoch on the UTC time line, a \<open>timedelta\<close> a signed
  number of microseconds.
\<close>

type_synonym instant = int
type_synonym timedelta = int

definition minutes :: "int \<Rightarrow> timedelta" where
  \<comment> \<open>\<open>timedelta(minutes=m)\<close>\<close>
  "minutes m = m * 60000000"

definition CACHE_TTL_MINUTES :: int where
  "CACHE_TTL_MINUTES = 15"

definition CHANNEL_ID :: int where
  "CHANNEL_ID = 1441268899369713684"

text \<open>
  A \<open>tzinfo\<close> object. Python treats two datetimes that hold the same object differently
  from two that hold different ones, so the object's identity is kept: \<open>PytzUTC\<close> is the
  object \<open>pytz.UTC\<close>, whose offset is 0; \<open>Zone k off\<close> is the object numbered \<open>k\<close> among
  all others (the zones of the feed), with the offset \<open>off\<close> from UTC, in microseconds,
  that it reports for the datetime at hand. One zone object reports different offsets
  for different datetimes.
\<close>

datatype tzinfo_obj = PytzUTC | Zone nat timedelta

fun utcoffset :: "tzinfo_obj \<Rightarrow> timedelta" where
  "utcoffset PytzUTC = 0"
| "utcoffset (Zone k off) = off"

text \<open>
  A \<open>datetime\<close> object: its calendar reading \<open>wall\<close> (microseconds since the epoch, read
  off the object's own fields) and its \<open>tzinfo\<close>, absent for a naive value.
\<close>

record py_datetime =
  wall :: int
  tzinfo :: "tzinfo_obj option"

text \<open>What \<open>component.get("DTSTART").dt\<close> can hold: a \<open>datetime\<close>, a plain \<open>date\<close>
  (days since the epoch), or a value of another type (a duration, a period).\<close>

datatype dt_value = DateTime py_datetime | Date int | OtherValue

datatype py_error = AttributeError | TypeError | OverflowError

definition aware :: "py_datetime \<Rightarrow> bool" where
  "aware d = (tzinfo d \<noteq> None)"

definition utc_instant :: "py_datetime \<Rightarrow> instant" where
  \<comment> \<open>for an aware value the UTC instant; for a naive one its calendar reading\<close>
  "utc_instant d = (case tzinfo d of None \<Rightarrow> wall d | Some z \<Rightarrow> wall d - utcoffset z)"

fun same_tzinfo :: "tzinfo_obj option \<Rightarrow> tzinfo_obj option \<Rightarrow> bool" where
  \<comment> \<open>\<open>a.tzinfo is b.tzinfo\<close>\<close>
  "same_tzinfo None None = True"
| "same_tzinfo (Some PytzUTC) (Some PytzUTC) = True"
| "same_tzinfo (Some (Zone j a)) (Some (Zone k b)) = (j = k)"
| "same_tzinfo x y = False"

text \<open>
  Subtraction and comparison of datetimes. With one and the same \<open>tzinfo\<close> (or none on
  both sides) Python works on the calendar readings and ignores the offsets; with two
  different objects it works on the UTC instants; between a naive and an aware value it
  raises TypeError.
\<close>

definition dt_sub :: "py_datetime \<Rightarrow> py_datetime \<Rightarrow> py_error + timedelta" where
  \<comment> \<open>\<open>a - b\<close>\<close>
  "dt_sub a b =
     (if same_tzinfo (tzinfo a) (tzinfo b) then Inr (wall a - wall b)
      else if aware a \<and> aware b then Inr (utc_instant a - utc_instant b)
      else Inl TypeError)"

definition dt_gt :: "py_datetime \<Rightarrow> py_datetime \<Rightarrow> py_error + bool" where
  \<comment> \<open>\<open>a > b\<close>\<close>
  "dt_gt a b =
     (if same_tzinfo (tzinfo a) (tzinfo b) then Inr (wall b < wall a)
      else if aware a \<and> aware b then Inr (utc_instant b < utc_instant a)
      else Inl TypeError)"

definition dt_lt :: "py_datetime \<Rightarrow> py_datetime \<Rightarrow> bool" where
  \<comment> \<open>\<open>a < b\<close>, for two values that Python can compare (both aware or both naive)\<close>
  "dt_lt a b =
     (if same_tzinfo (tzinfo a) (tzinfo b) then wall a < wall b
      else utc_instant a < utc_instant b)"

definition utc_datetime :: "instant \<Rightarrow> py_datetime" where
  \<comment> \<open>the value of \<open>datetime.now(pytz.UTC)\<close> when the clock reads \<open>t\<close>\<close>
  "utc_datetime t = \<lparr>wall = t, tzinfo = Some PytzUTC\<rparr>"

text \<open>
  The calendar ends: \<open>datetime.min\<close> is 0001-01-01 00:00:00 and \<open>datetime.max\<close> is
  9999-12-31 23:59:59.999999. \<open>d.astimezone(DISPLAY_TZ)\<close> first moves \<open>d\<close> to UTC and then
  adds the offset of Asia/Kolkata, which is +05:30 at the upper end; either step raises
  OverflowError when it leaves the calendar. So the call raises below \<open>datetime.min\<close>
  and from 9999-12-31 18:30 UTC on. (Python reads a naive value in the system's zone;
  it is read as UTC here, and no cache that \<open>get_red_news\<close> has filled holds one.)
\<close>

definition datetime_min :: instant where
  "datetime_min = - 62135596800000000"

definition datetime_max :: instant where
  "datetime_max = 253402300799999999"

definition astimezone_overflows :: "py_datetime \<Rightarrow> bool" where
  \<comment> \<open>True when \<open>d.astimezone(DISPLAY_TZ)\<close> raises OverflowError\<close>
  "astimezone_overflows d =
     (utc_instant d < datetime_min \<or> datetime_max < utc_instant d + 19800000000)"

section \<open>Strings\<close>

definition startswith :: "string \<Rightarrow> string \<Rightarrow> bool" where
  \<comment> \<open>\<open>s.startswith(p)\<close>\<close>
  "startswith s p = (take (length p) s = p)"

fun str_contains :: "string \<Rightarrow> string \<Rightarrow> bool" where
  \<comment> \<open>\<open>sub in s\<close>\<close>
  "str_contains sub [] = (sub = [])"
| "str_contains sub (c # cs) = (startswith (c # cs) sub \<or> str_contains sub cs)"

definition lower_char :: "char \<Rightarrow> char" where
  "lower_char c =
     (case map_of (zip ''ABCDEFGHIJKLMNOPQRSTUVWXYZ'' ''abcdefghijklmnopqrstuvwxyz'') c of
        None \<Rightarrow> c
      | Some l \<Rightarrow> l)"

definition lower :: "string \<Rightarrow> string" where
  \<comment> \<open>\<open>s.lower()\<close>, read on the bytes of the text. Only A to Z are mapped: no other
     character lowercases to a character of the command word, so the prefix test of
     \<open>on_message\<close> comes out the same\<close>
  "lower s = map lower_char s"

section \<open>The feed and the cache\<close>

text \<open>One component of the calendar, as \<open>cal.walk()\<close> yields it: its \<open>name\<close> and the three
  properties the code reads, each absent or present. An absent \<open>DTSTART\<close> stands for
  every case in which \<open>component.get("DTSTART")\<close> has no attribute \<open>dt\<close>.\<close>

record component =
  name :: string
  DESCRIPTION :: "string option"
  SUMMARY :: "string option"
  DTSTART :: "dt_value option"

type_synonym event = "py_datetime \<times> string"

record cache =
  LAST_FETCH :: "instant option"
  CACHED_EVENTS :: "event list"

definition initial_cache :: cache where
  "initial_cache = \<lparr>LAST_FETCH = None, CACHED_EVENTS = []\<rparr>"

text \<open>The answer of \<open>requests.get\<close>: an exception, or a response object.\<close>

record response =
  status_code :: int
  response_text :: string

datatype http_result = Raised | Returned response

definition raise_for_status :: "response \<Rightarrow> bool" where
  \<comment> \<open>True when \<open>response.raise_for_status()\<close> raises: the 4xx and 5xx statuses\<close>
  "raise_for_status r = (400 \<le> status_code r \<and> status_code r < 600)"

text \<open>What a call does besides returning: the lines it prints, the request it makes, the
  messages it sends to the channel. The text of a line or message is not modelled, only
  the values it is built from.\<close>

datatype log_line =
    DebugUsingCached nat int
  | DebugRefreshing
  | Warn429
  | ErrorCouldNotFetch
  | InfoFallingBack
  | ErrorCouldNotParse
  | DebugFetched nat
  | EventLine nat string py_datetime
  | WarnChannelNotFound
  | InfoAlertSent string py_datetime

datatype outbound =
    Alert string py_datetime
  | NoUpcomingNews
  | NextNews "event list"

datatype effect = Print log_line | HttpGet | Send outbound

definition event_time_of :: "dt_value \<Rightarrow> py_error + py_datetime" where
  \<comment> \<open>lines 104 to 109\<close>
  "event_time_of start =
     (case start of
        DateTime d \<Rightarrow> Inr (if tzinfo d = None then d\<lparr>tzinfo := Some PytzUTC\<rparr> else d)
      | Date day \<Rightarrow> Inr \<lparr>wall = day * 86400000000, tzinfo = Some PytzUTC\<rparr>
      | OtherValue \<Rightarrow> Inl TypeError)"

definition description_of :: "component \<Rightarrow> string" where
  "description_of c = (case DESCRIPTION c of None \<Rightarrow> [] | Some d \<Rightarrow> d)"

definition summary_of :: "component \<Rightarrow> string" where
  "summary_of c = (case SUMMARY c of None \<Rightarrow> ''Unknown event'' | Some s \<Rightarrow> s)"

text \<open>The loop over \<open>cal.walk()\<close> (lines 90 to 112), with the list \<open>events\<close> it appends to.\<close>

fun walk_loop :: "py_datetime \<Rightarrow> component list \<Rightarrow> event list \<Rightarrow> py_error + event list" where
  "walk_loop now_utc [] events = Inr events"
| "walk_loop now_utc (c # cs) events =
     (if name c \<noteq> ''VEVENT'' then walk_loop now_utc cs events
      else if \<not> str_contains ''Impact: High'' (description_of c)
              \<and> \<not> str_contains ''High Impact Expected'' (description_of c)
           then walk_loop now_utc cs events
      else (case DTSTART c of
              None \<Rightarrow> Inl AttributeError
            | Some start \<Rightarrow>
                (case event_time_of start of
                   Inl e \<Rightarrow> Inl e
                 | Inr event_time \<Rightarrow>
                     (case dt_gt event_time now_utc of
                        Inl e \<Rightarrow> Inl e
                      | Inr True \<Rightarrow> walk_loop now_utc cs (events @ [(event_time, summary_of c)])
                      | Inr False \<Rightarrow> walk_loop now_utc cs events))))"

definition fallback :: "cache \<Rightarrow> effect list \<Rightarrow> (py_error + event list) \<times> cache \<times> effect list" where
  \<comment> \<open>the body shared by the two \<open>except\<close> blocks\<close>
  "fallback c tr =
     (if CACHED_EVENTS c \<noteq> [] then (Inr (CACHED_EVENTS c), c, tr @ [Print InfoFallingBack])
      else (Inr [], c, tr))"

text \<open>The loop that prints the first five events (lines 119 to 121), entered with the
  index \<open>i\<close>: the conversion to the display zone comes before the line is printed, and
  its exception ends the loop.\<close>

fun print_events :: "nat \<Rightarrow> event list \<Rightarrow> py_error option \<times> effect list" where
  "print_events i [] = (None, [])"
| "print_events i ((ev_time, ev_summary) # rest) =
     (if astimezone_overflows ev_time then (Some OverflowError, [])
      else (case print_events (i + 1) rest of
              (r, tr) \<Rightarrow> (r, Print (EventLine (i + 1) ev_summary ev_time) # tr)))"

definition is_fresh :: "instant \<Rightarrow> cache \<Rightarrow> bool" where
  \<comment> \<open>the test of line 52\<close>
  "is_fresh now c =
     (case LAST_FETCH c of
        None \<Rightarrow> False
      | Some fetched \<Rightarrow> now - fetched < minutes CACHE_TTL_MINUTES)"

definition minutes_ago :: "instant \<Rightarrow> cache \<Rightarrow> int" where
  \<comment> \<open>\<open>(now_utc - LAST_FETCH).seconds // 60\<close>, printed on a cache hit only, where
     \<open>LAST_FETCH\<close> is present\<close>
  "minutes_ago now c =
     (case LAST_FETCH c of
        None \<Rightarrow> 0
      | Some fetched \<Rightarrow> ((now - fetched) mod 86400000000) div 1000000 div 60)"

text \<open>
  \<open>get_red_news\<close>, given the library's parser \<open>from_ical\<close> (\<open>None\<close> when it raises, else
  the components \<open>cal.walk()\<close> lists), the answer \<open>http\<close> the server gives if asked, the
  clock reading \<open>now\<close> and the globals. It returns the value (or the exception that
  escapes), the globals after the call, and the effects in order. The loop over the
  components stands outside both \<open>try\<close> blocks, so its exceptions escape with the
  globals untouched; the globals are assigned before the fetched events are printed, so
  an exception of the printing loop escapes with the new globals in place.
\<close>

definition get_red_news ::
  "(string \<Rightarrow> component list option) \<Rightarrow> http_result \<Rightarrow> instant \<Rightarrow> cache
     \<Rightarrow> (py_error + event list) \<times> cache \<times> effect list" where
  "get_red_news from_ical http now c =
     (if is_fresh now c then
        (Inr (CACHED_EVENTS c), c,
         [Print (DebugUsingCached (length (CACHED_EVENTS c)) (minutes_ago now c))])
      else
        (case http of
           Raised \<Rightarrow> fallback c [Print DebugRefreshing, HttpGet, Print ErrorCouldNotFetch]
         | Returned r \<Rightarrow>
             if status_code r = 429 then
               (Inr (CACHED_EVENTS c), c, [Print DebugRefreshing, HttpGet, Print Warn429])
             else if raise_for_status r then
               fallback c [Print DebugRefreshing, HttpGet, Print ErrorCouldNotFetch]
             else
               (case from_ical (response_text r) of
                  None \<Rightarrow> fallback c [Print DebugRefreshing, HttpGet, Print ErrorCouldNotParse]
                | Some comps \<Rightarrow>
                    (case walk_loop (utc_datetime now) comps [] of
                       Inl e \<Rightarrow> (Inl e, c, [Print DebugRefreshing, HttpGet])
                     | Inr events \<Rightarrow>
                         (case print_events 0 (take 5 events) of
                            (r, tr) \<Rightarrow>
                              ((case r of None \<Rightarrow> Inr events | Some e \<Rightarrow> Inl e),
                               \<lparr>LAST_FETCH = Some now, CACHED_EVENTS = events\<rparr>,
                               [Print DebugRefreshing, HttpGet,
                                Print (DebugFetched (length events))] @ tr))))))"

section \<open>The scheduled tick\<close>

text \<open>The loop of \<open>check_news\<close> (lines 140 to 161): the exception that stops it, if any,
  and the effects up to there. The conversion to the display zone (line 145) comes
  before the alert is sent.\<close>

fun alert_loop :: "py_datetime \<Rightarrow> event list \<Rightarrow> py_error option \<times> effect list" where
  "alert_loop now_utc [] = (None, [])"
| "alert_loop now_utc ((event_time_utc, summary) # rest) =
     (case dt_sub event_time_utc now_utc of
        Inl e \<Rightarrow> (Some e, [])
      | Inr diff \<Rightarrow>
          if minutes 9 < diff \<and> diff \<le> minutes 10 then
            if astimezone_overflows event_time_utc then (Some OverflowError, [])
            else
              (case alert_loop now_utc rest of
                 (r, tr) \<Rightarrow>
                   (r, Send (Alert summary event_time_utc)
                         # Print (InfoAlertSent summary event_time_utc) # tr))
          else alert_loop now_utc rest)"

text \<open>
  \<open>check_news\<close>: \<open>channel\<close> is what \<open>client.get_channel(CHANNEL_ID)\<close> returns, \<open>now\<close> the
  clock read at line 137 and \<open>now'\<close> the clock read inside \<open>get_red_news\<close> right after.
  Delivery by \<open>channel.send\<close> is taken to succeed.
\<close>

definition check_news ::
  "(string \<Rightarrow> component list option) \<Rightarrow> int option \<Rightarrow> instant \<Rightarrow> instant \<Rightarrow> http_result
     \<Rightarrow> cache \<Rightarrow> py_error option \<times> cache \<times> effect list" where
  "check_news from_ical channel now now' http c =
     (case channel of
        None \<Rightarrow> (None, c, [Print WarnChannelNotFound])
      | Some ch \<Rightarrow>
          (case get_red_news from_ical http now' c of
             (Inl e, c', tr) \<Rightarrow> (Some e, c', tr)
           | (Inr events, c', tr) \<Rightarrow>
               (case alert_loop (utc_datetime now) events of
                  (r, tr') \<Rightarrow> (r, c', tr @ tr'))))"

section \<open>The command\<close>

record message =
  author :: int
  channel_id :: int
  content :: string

text \<open>
  \<open>sorted(events, key=lambda e: e[0])\<close>. Python's sort is a library routine: it is the
  argument \<open>list_sort\<close>, about which Python promises that it is stable and decides by \<open><\<close>
  on the keys alone. Comparing a naive key with an aware one raises TypeError, and
  sorting a list that holds both must compare such a pair.
\<close>

definition sorted_events :: "(event list \<Rightarrow> event list) \<Rightarrow> event list \<Rightarrow> py_error + event list" where
  "sorted_events list_sort events =
     (if list_all (\<lambda>e. aware (fst e)) events \<or> list_all (\<lambda>e. \<not> aware (fst e)) events
      then Inr (list_sort events)
      else Inl TypeError)"

text \<open>The body of the command branch of \<open>on_message\<close> (lines 176 to 196). The loop that
  builds the lines converts each of the events shown to the display zone before
  anything is sent.\<close>

definition next_news ::
  "(event list \<Rightarrow> event list) \<Rightarrow> (string \<Rightarrow> component list option) \<Rightarrow> http_result \<Rightarrow> instant
     \<Rightarrow> cache \<Rightarrow> py_error option \<times> cache \<times> effect list" where
  "next_news list_sort from_ical http now c =
     (case get_red_news from_ical http now c of
        (Inl e, c', tr) \<Rightarrow> (Some e, c', tr)
      | (Inr events, c', tr) \<Rightarrow>
          if events = [] then (None, c', tr @ [Send NoUpcomingNews])
          else
            (case sorted_events list_sort events of
               Inl e \<Rightarrow> (Some e, c', tr)
             | Inr evs \<Rightarrow>
                 if list_ex (\<lambda>e. astimezone_overflows (fst e)) (take 3 evs)
                 then (Some OverflowError, c', tr)
                 else (None, c', tr @ [Send (NextNews (take 3 evs))])))"

text \<open>\<open>on_message\<close>: \<open>client_user\<close> is \<open>client.user\<close>; the other arguments are those of
  \<open>next_news\<close>.\<close>

definition on_message ::
  "(event list \<Rightarrow> event list) \<Rightarrow> (string \<Rightarrow> component list option) \<Rightarrow> int \<Rightarrow> instant
     \<Rightarrow> http_result \<Rightarrow> message \<Rightarrow> cache \<Rightarrow> py_error option \<times> cache \<times> effect list" where
  "on_message list_sort from_ical client_user now http msg c =
     (if author msg = client_user then (None, c, [])
      else if channel_id msg \<noteq> CHANNEL_ID then (None, c, [])
      else if startswith (lower (content msg)) ''!nextnews''
        then next_news list_sort from_ical http now c
      else (None, c, []))"

section \<open>Notions used to state the properties\<close>

definition high_impact :: "component \<Rightarrow> bool" where
  \<comment> \<open>a record that passes the two guards of lines 91 and 99\<close>
  "high_impact c =
     (name c = ''VEVENT''
      \<and> (str_contains ''Impact: High'' (description_of c)
           \<or> str_contains ''High Impact Expected'' (description_of c)))"

definition cache_aware :: "cache \<Rightarrow> bool" where
  \<comment> \<open>every cached event time carries a timezone\<close>
  "cache_aware c = list_all (\<lambda>e. aware (fst e)) (CACHED_EVENTS c)"

definition refresh_fails :: "(string \<Rightarrow> component list option) \<Rightarrow> http_result \<Rightarrow> bool" where
  \<comment> \<open>the request raises, is answered 429 or with an error status, or the document
     does not parse\<close>
  "refresh_fails from_ical http =
     (case http of
        Raised \<Rightarrow> True
      | Returned r \<Rightarrow>
          status_code r = 429 \<or> raise_for_status r \<or> from_ical (response_text r) = None)"

definition refreshed_from ::
  "(string \<Rightarrow> component list option) \<Rightarrow> http_result \<Rightarrow> instant \<Rightarrow> cache
     \<Rightarrow> component list \<Rightarrow> bool" where
  \<comment> \<open>the call reaches the loop over the components \<open>comps\<close> of a fetched document\<close>
  "refreshed_from from_ical http now c comps =
     (\<not> is_fresh now c
      \<and> (case http of
            Raised \<Rightarrow> False
          | Returned r \<Rightarrow>
              status_code r \<noteq> 429 \<and> \<not> raise_for_status r
              \<and> from_ical (response_text r) = Some comps))"






text \<open>A sort that decides by \<open><\<close> alone: insertion from the right, each element placed
  after the elements less than it. It keeps Python's promise (lemma \<open>insertion_sorts_stably\<close>).\<close>

fun insert_by :: "('a \<Rightarrow> 'a \<Rightarrow> bool) \<Rightarrow> 'a \<Rightarrow> 'a list \<Rightarrow> 'a list" where
  "insert_by lt x [] = [x]"
| "insert_by lt x (y # ys) = (if lt y x then y # insert_by lt x ys else x # y # ys)"

definition insertion_sort :: "event list \<Rightarrow> event list" where
  "insertion_sort xs = foldr (insert_by (\<lambda>a b. dt_lt (fst a) (fst b))) xs []"

section \<open>Auxiliary facts\<close>

lemmas eval_defs =
  get_red_news_def is_fresh_def initial_cache_def raise_for_status_def utc_datetime_def
  event_time_of_def dt_gt_def dt_sub_def dt_lt_def aware_def utc_instant_def description_of_def
  summary_of_def startswith_def fallback_def minutes_def CACHE_TTL_MINUTES_def
  minutes_ago_def refresh_fails_def refreshed_from_def high_impact_def cache_aware_def
  astimezone_overflows_def datetime_min_def datetime_max_def

subsection \<open>Strings\<close>

lemma startswith_iff: "startswith s p \<longleftrightarrow> (\<exists>post. s = p @ post)"
  unfolding startswith_def
  by (metis append_eq_conv_conj append_take_drop_id)

text \<open>\<open>str_contains\<close> is the substring test.\<close>

lemma str_contains_iff: "str_contains sub s \<longleftrightarrow> (\<exists>pre post. s = pre @ sub @ post)"
proof (induction s)
  case Nil
  then show ?case by auto
next
  case (Cons c cs)
  show ?case
  proof
    assume "str_contains sub (c # cs)"
    then consider "startswith (c # cs) sub" | "str_contains sub cs" by auto
    then show "\<exists>pre post. c # cs = pre @ sub @ post"
    proof cases
      case 1
      then obtain post where "c # cs = sub @ post" by (auto simp: startswith_iff)
      then have "c # cs = [] @ sub @ post" by simp
      then show ?thesis by blast
    next
      case 2
      then obtain pre post where "cs = pre @ sub @ post" using Cons.IH by blast
      then have "c # cs = (c # pre) @ sub @ post" by simp
      then show ?thesis by blast
    qed
  next
    assume "\<exists>pre post. c # cs = pre @ sub @ post"
    then obtain pre post where e: "c # cs = pre @ sub @ post" by blast
    show "str_contains sub (c # cs)"
    proof (cases pre)
      case Nil
      then have "startswith (c # cs) sub" using e by (auto simp: startswith_iff)
      then show ?thesis by simp
    next
      case (Cons p ps)
      then have "cs = ps @ sub @ post" using e by simp
      then have "str_contains sub cs" using Cons.IH by blast
      then show ?thesis by simp
    qed
  qed
qed

lemma startswith_lower_iff:
  "startswith (lower s) p \<longleftrightarrow> (\<exists>cmd trailing. s = cmd @ trailing \<and> lower cmd = p)"
proof
  assume "startswith (lower s) p"
  then have "lower (take (length p) s) = p"
    by (simp add: startswith_def lower_def take_map)
  then have "s = take (length p) s @ drop (length p) s \<and> lower (take (length p) s) = p"
    by simp
  then show "\<exists>cmd trailing. s = cmd @ trailing \<and> lower cmd = p" by blast
next
  assume "\<exists>cmd trailing. s = cmd @ trailing \<and> lower cmd = p"
  then obtain cmd trailing where "s = cmd @ trailing" "lower cmd = p" by blast
  then show "startswith (lower s) p"
    by (auto simp: startswith_def lower_def)
qed

subsection \<open>Datetimes\<close>

lemma event_time_of_aware: "event_time_of st = Inr t \<Longrightarrow> aware t"
  by (auto simp: event_time_of_def aware_def split: dt_value.splits if_splits)

text \<open>Against the clock's value, which holds \<open>pytz.UTC\<close>, both rules of comparison give
  the order of the instants.\<close>

lemma same_tzinfo_utc: "same_tzinfo (Some z) (Some PytzUTC) \<longleftrightarrow> z = PytzUTC"
  by (cases z) simp_all

lemma dt_gt_utc: "aware t \<Longrightarrow> dt_gt t (utc_datetime now) = Inr (now < utc_instant t)"
  by (auto simp: dt_gt_def aware_def utc_datetime_def utc_instant_def same_tzinfo_utc)


subsection \<open>The loop over the components\<close>

lemma walk_loop_acc:
  "walk_loop now_utc cs acc =
     (case walk_loop now_utc cs [] of Inl e \<Rightarrow> Inl e | Inr evs \<Rightarrow> Inr (acc @ evs))"
proof (induction cs arbitrary: acc)
  case Nil
  then show ?case by simp
next
  case (Cons c cs)
  have a: "\<And>x. walk_loop now_utc cs (acc @ [x]) =
      (case walk_loop now_utc cs [x] of Inl e \<Rightarrow> Inl e | Inr evs \<Rightarrow> Inr (acc @ evs))"
    by (subst Cons.IH, subst (2) Cons.IH) (simp split: sum.splits)
  show ?case
    by (simp add: a split: option.splits sum.splits bool.splits) (simp add: Cons.IH[of acc])
qed

lemma walk_loop_acc_subset:
  "walk_loop now_utc cs acc = Inr evs \<Longrightarrow> set acc \<subseteq> set evs"
  by (subst (asm) walk_loop_acc) (auto split: sum.splits)

text \<open>Records that fail a guard have no influence on the loop, not even on its errors.\<close>

lemma walk_loop_filter: "walk_loop now_utc (filter high_impact cs) acc = walk_loop now_utc cs acc"
  by (induction cs arbitrary: acc)
    (auto simp: high_impact_def split: option.splits sum.splits bool.splits)

lemma walk_loop_sound:
  "walk_loop (utc_datetime now) cs acc = Inr evs \<Longrightarrow> e \<in> set evs \<Longrightarrow>
     e \<in> set acc \<or>
     (\<exists>c \<in> set cs. high_impact c \<and> snd e = summary_of c \<and> now < utc_instant (fst e)
        \<and> aware (fst e)
        \<and> (\<exists>st. DTSTART c = Some st \<and> event_time_of st = Inr (fst e)))"
proof (induction cs arbitrary: acc)
  case Nil
  then show ?case by simp
next
  case (Cons c cs)
  show ?case
  proof (cases "high_impact c")
    case False
    then have "walk_loop (utc_datetime now) cs acc = Inr evs"
      using Cons.prems(1) by (auto simp: high_impact_def split: if_splits)
    from Cons.IH[OF this Cons.prems(2)] show ?thesis by auto
  next
    case True
    then obtain st t where st: "DTSTART c = Some st" and t: "event_time_of st = Inr t"
      using Cons.prems(1)
      by (auto simp: high_impact_def split: option.splits sum.splits if_splits)
    have aw: "aware t" using t by (rule event_time_of_aware)
    show ?thesis
    proof (cases "now < utc_instant t")
      case False
      then have "walk_loop (utc_datetime now) cs acc = Inr evs"
        using Cons.prems(1) True st t by (auto simp: high_impact_def dt_gt_utc[OF aw])
      from Cons.IH[OF this Cons.prems(2)] show ?thesis by auto
    next
      case lt: True
      then have "walk_loop (utc_datetime now) cs (acc @ [(t, summary_of c)]) = Inr evs"
        using Cons.prems(1) True st t by (auto simp: high_impact_def dt_gt_utc[OF aw])
      from Cons.IH[OF this Cons.prems(2)] show ?thesis
        using True st t lt aw by auto
    qed
  qed
qed

lemma walk_loop_complete:
  "walk_loop (utc_datetime now) cs acc = Inr evs \<Longrightarrow> c \<in> set cs \<Longrightarrow> high_impact c \<Longrightarrow>
   DTSTART c = Some st \<Longrightarrow> event_time_of st = Inr t \<Longrightarrow> now < utc_instant t \<Longrightarrow>
   (t, summary_of c) \<in> set evs"
proof (induction cs arbitrary: acc)
  case Nil
  then show ?case by simp
next
  case (Cons d ds)
  have aw: "aware t" using Cons.prems(5) by (rule event_time_of_aware)
  show ?case
  proof (cases "c = d")
    case True
    then have "walk_loop (utc_datetime now) ds (acc @ [(t, summary_of c)]) = Inr evs"
      using Cons.prems by (auto simp: high_impact_def dt_gt_utc[OF aw])
    then have "set (acc @ [(t, summary_of c)]) \<subseteq> set evs" by (rule walk_loop_acc_subset)
    then show ?thesis by simp
  next
    case False
    then have c: "c \<in> set ds" using Cons.prems(2) by simp
    obtain acc' where "walk_loop (utc_datetime now) ds acc' = Inr evs"
      using Cons.prems(1) by (auto split: if_splits option.splits sum.splits bool.splits)
    from Cons.IH[OF this c Cons.prems(3-6)] show ?thesis .
  qed
qed

text \<open>The loop returns exactly when every record that passes the guards has a start
  that is a date or a datetime.\<close>

lemma walk_loop_returns:
  "(\<forall>r \<in> set cs. high_impact r \<longrightarrow> (\<exists>st. DTSTART r = Some st \<and> st \<noteq> OtherValue)) \<Longrightarrow>
   \<exists>evs. walk_loop (utc_datetime now) cs acc = Inr evs"
proof (induction cs arbitrary: acc)
  case Nil
  then show ?case by simp
next
  case (Cons c cs)
  then have ih: "\<And>acc. \<exists>evs. walk_loop (utc_datetime now) cs acc = Inr evs" by simp
  show ?case
  proof (cases "high_impact c")
    case False
    then show ?thesis using ih[of acc] by (auto simp: high_impact_def)
  next
    case True
    then obtain st where st: "DTSTART c = Some st" "st \<noteq> OtherValue"
      using Cons.prems by auto
    then obtain t where t: "event_time_of st = Inr t"
      by (cases st) (auto simp: event_time_of_def)
    have aw: "aware t" using t by (rule event_time_of_aware)
    show ?thesis
      using True st t ih[of acc] ih[of "acc @ [(t, summary_of c)]"]
      by (cases "now < utc_instant t") (auto simp: high_impact_def dt_gt_utc[OF aw])
  qed
qed

lemma walk_loop_returned:
  "walk_loop now_utc cs acc = Inr evs \<Longrightarrow>
   \<forall>r \<in> set cs. high_impact r \<longrightarrow> (\<exists>st. DTSTART r = Some st \<and> st \<noteq> OtherValue)"
proof (induction cs arbitrary: acc)
  case Nil
  then show ?case by simp
next
  case (Cons c cs)
  obtain acc' where r: "walk_loop now_utc cs acc' = Inr evs"
    using Cons.prems by (auto split: if_splits option.splits sum.splits bool.splits)
  have "high_impact c \<longrightarrow> (\<exists>st. DTSTART c = Some st \<and> st \<noteq> OtherValue)"
    using Cons.prems
    by (auto simp: high_impact_def event_time_of_def split: if_splits option.splits sum.splits)
  then show ?case using Cons.IH[OF r] by simp
qed

lemma walk_loop_aware:
  "walk_loop (utc_datetime now) cs acc = Inr evs \<Longrightarrow> list_all (\<lambda>e. aware (fst e)) acc \<Longrightarrow>
   list_all (\<lambda>e. aware (fst e)) evs"
  using walk_loop_sound[of now cs acc evs] by (auto simp: list_all_iff)

subsection \<open>The loop that prints the fetched events\<close>

lemma print_events_raises:
  "fst (print_events i evs) =
     (if list_ex (\<lambda>e. astimezone_overflows (fst e)) evs then Some OverflowError else None)"
  by (induction i evs rule: print_events.induct) (auto split: prod.splits)


subsection \<open>The cache accessor\<close>

text \<open>The three ways through \<open>get_red_news\<close>: a hit on a fresh cache, a failed refresh,
  and a refresh that reaches the loop over the components.\<close>

lemma get_red_news_fresh:
  "is_fresh now c \<Longrightarrow>
   get_red_news from_ical http now c =
     (Inr (CACHED_EVENTS c), c,
      [Print (DebugUsingCached (length (CACHED_EVENTS c)) (minutes_ago now c))])"
  by (simp add: get_red_news_def)

lemma get_red_news_stale_failed:
  "\<not> is_fresh now c \<Longrightarrow> refresh_fails from_ical http \<Longrightarrow>
   \<exists>tr. get_red_news from_ical http now c = (Inr (CACHED_EVENTS c), c, tr)
        \<and> HttpGet \<in> set tr \<and> (\<forall>m. Send m \<notin> set tr)"
  by (cases http)
    (auto simp: refresh_fails_def get_red_news_def fallback_def)

lemma stale_cases:
  "refresh_fails from_ical http \<or> (\<exists>comps. refreshed_from from_ical http now c comps)
   \<or> is_fresh now c"
  by (cases http) (auto simp: refresh_fails_def refreshed_from_def)

lemma get_red_news_refreshed:
  "refreshed_from from_ical http now c comps \<Longrightarrow>
   get_red_news from_ical http now c =
     (case walk_loop (utc_datetime now) comps [] of
        Inl e \<Rightarrow> (Inl e, c, [Print DebugRefreshing, HttpGet])
      | Inr events \<Rightarrow>
          ((if list_ex (\<lambda>e. astimezone_overflows (fst e)) (take 5 events)
            then Inl OverflowError else Inr events),
           \<lparr>LAST_FETCH = Some now, CACHED_EVENTS = events\<rparr>,
           [Print DebugRefreshing, HttpGet, Print (DebugFetched (length events))]
             @ snd (print_events 0 (take 5 events))))"
proof -
  assume rf: "refreshed_from from_ical http now c comps"
  then obtain r where r: "http = Returned r" "status_code r \<noteq> 429" "\<not> raise_for_status r"
      "from_ical (response_text r) = Some comps" and nf: "\<not> is_fresh now c"
    by (auto simp: refreshed_from_def split: http_result.splits)
  show ?thesis
  proof (cases "walk_loop (utc_datetime now) comps []")
    case (Inl e)
    then show ?thesis by (simp add: get_red_news_def r nf)
  next
    case (Inr events)
    obtain x tr where p: "print_events 0 (take 5 events) = (x, tr)"
      by (cases "print_events 0 (take 5 events)")
    have x: "x = (if list_ex (\<lambda>e. astimezone_overflows (fst e)) (take 5 events)
                  then Some OverflowError else None)"
      using print_events_raises[of 0 "take 5 events"] p by simp
    show ?thesis
      by (simp add: get_red_news_def r nf Inr p x)
  qed
qed

lemma get_red_news_failed:
  "refresh_fails from_ical http \<Longrightarrow>
   fst (get_red_news from_ical http now c) = Inr (CACHED_EVENTS c)
   \<and> fst (snd (get_red_news from_ical http now c)) = c"
proof (cases "is_fresh now c")
  case True
  then show ?thesis by (simp add: get_red_news_fresh)
next
  case False
  assume "refresh_fails from_ical http"
  from get_red_news_stale_failed[OF False this] show ?thesis by auto
qed

text \<open>Whenever the accessor returns a list, it is the list it leaves in the cache.\<close>

lemma get_red_news_result:
  assumes "get_red_news from_ical http now c = (Inr events, c', tr)"
  shows "events = CACHED_EVENTS c'"
proof -
  consider "is_fresh now c" | "\<not> is_fresh now c" "refresh_fails from_ical http"
    | comps where "refreshed_from from_ical http now c comps"
    using stale_cases[of from_ical http now c] by blast
  then show ?thesis
  proof cases
    case 1
    then show ?thesis using assms by (auto simp: get_red_news_fresh)
  next
    case 2
    then show ?thesis using assms get_red_news_stale_failed[OF 2] by auto
  next
    case 3
    then show ?thesis
      using assms by (auto simp: get_red_news_refreshed[OF 3] split: sum.splits if_splits)
  qed
qed

text \<open>The accessor keeps every cached event time aware.\<close>

lemma get_red_news_aware:
  assumes "cache_aware c" and "get_red_news from_ical http now c = (Inr events, c', tr)"
  shows "list_all (\<lambda>e. aware (fst e)) events \<and> cache_aware c'"
proof -
  consider "is_fresh now c" | "\<not> is_fresh now c" "refresh_fails from_ical http"
    | comps where "refreshed_from from_ical http now c comps"
    using stale_cases[of from_ical http now c] by blast
  then show ?thesis
  proof cases
    case 1
    then show ?thesis using assms by (auto simp: get_red_news_fresh cache_aware_def)
  next
    case 2
    then show ?thesis
      using assms get_red_news_stale_failed[OF 2] by (auto simp: cache_aware_def)
  next
    case 3
    have "list_all (\<lambda>e. aware (fst e)) events \<and> CACHED_EVENTS c' = events"
      using assms(2) walk_loop_aware[of now comps "[]" events]
      by (auto simp: get_red_news_refreshed[OF 3] split: sum.splits if_splits)
    then show ?thesis by (simp add: cache_aware_def)
  qed
qed

subsection \<open>Alerts in a trace\<close>






subsection \<open>Sorting\<close>






section \<open>The trigger window\<close>




section \<open>Stale fallback\<close>

text \<open>
  C2. When the request raises, the answer is 429, the answer has a 4xx or 5xx status, or
  the parser rejects the document, \<open>get_red_news\<close> returns the stored events and leaves
  the cache, \<open>LAST_FETCH\<close> included, as it was; from the initial cache it returns the
  empty list.
\<close>

theorem get_red_news_stale_fallback:
  assumes "refresh_fails from_ical http"
  shows "fst (get_red_news from_ical http now c) = Inr (CACHED_EVENTS c)
     \<and> fst (snd (get_red_news from_ical http now c)) = c
     \<and> fst (get_red_news from_ical http now initial_cache) = Inr []"
  using get_red_news_failed[OF assms, of now c] get_red_news_failed[OF assms, of now initial_cache]
  by (simp add: initial_cache_def)

text \<open>A stale cache of one event, with a document that does not parse, a 429 answer and
  a 503 answer; and a request that raises before any fetch has succeeded.\<close>

theorem get_red_news_stale_fallback_witness:
  "fst (get_red_news (\<lambda>s. None) (Returned \<lparr>status_code = 200, response_text = ''junk''\<rparr>)
          2000000000
          \<lparr>LAST_FETCH = Some 0, CACHED_EVENTS = [(utc_datetime 5000000000, ''CPI'')]\<rparr>)
     = Inr [(utc_datetime 5000000000, ''CPI'')]
   \<and> fst (snd (get_red_news (\<lambda>s. None)
          (Returned \<lparr>status_code = 200, response_text = ''junk''\<rparr>) 2000000000
          \<lparr>LAST_FETCH = Some 0, CACHED_EVENTS = [(utc_datetime 5000000000, ''CPI'')]\<rparr>))
     = \<lparr>LAST_FETCH = Some 0, CACHED_EVENTS = [(utc_datetime 5000000000, ''CPI'')]\<rparr>
   \<and> fst (get_red_news (\<lambda>s. Some []) (Returned \<lparr>status_code = 429, response_text = ''''\<rparr>)
          2000000000
          \<lparr>LAST_FETCH = Some 0, CACHED_EVENTS = [(utc_datetime 5000000000, ''CPI'')]\<rparr>)
     = Inr [(utc_datetime 5000000000, ''CPI'')]
   \<and> fst (get_red_news (\<lambda>s. Some []) (Returned \<lparr>status_code = 503, response_text = ''''\<rparr>)
          2000000000
          \<lparr>LAST_FETCH = Some 0, CACHED_EVENTS = [(utc_datetime 5000000000, ''CPI'')]\<rparr>)
     = Inr [(utc_datetime 5000000000, ''CPI'')]
   \<and> fst (get_red_news (\<lambda>s. Some []) Raised 2000000000 initial_cache) = Inr []"
proof -
  have p: "refresh_fails (\<lambda>s. None) (Returned \<lparr>status_code = 200, response_text = ''junk''\<rparr>)"
    by (simp add: refresh_fails_def raise_for_status_def)
  have l: "refresh_fails (\<lambda>s. Some []) (Returned \<lparr>status_code = 429, response_text = ''''\<rparr>)"
    by (simp add: refresh_fails_def)
  have s: "refresh_fails (\<lambda>s. Some []) (Returned \<lparr>status_code = 503, response_text = ''''\<rparr>)"
    by (simp add: refresh_fails_def raise_for_status_def)
  have r: "refresh_fails (\<lambda>s. Some []) Raised"
    by (simp add: refresh_fails_def)
  show ?thesis
    using get_red_news_stale_fallback[OF p] get_red_news_stale_fallback[OF l]
      get_red_news_stale_fallback[OF s] get_red_news_stale_fallback[OF r]
    by (simp add: initial_cache_def)
qed

text \<open>Two refreshes that fail in other ways, on a stale cache of one event. An answer
  with status 300 and a document without events is taken for a success: the cache is
  replaced by the empty list. A document whose high-impact event has no \<open>DTSTART\<close>
  makes the call raise AttributeError: the stored list is not returned.\<close>

theorem get_red_news_stale_fallback_counterexample:
  "get_red_news
      (\<lambda>s. Some [\<lparr>name = ''VCALENDAR'', DESCRIPTION = None, SUMMARY = None, DTSTART = None\<rparr>])
      (Returned \<lparr>status_code = 300, response_text = ''''\<rparr>) 2000000000
      \<lparr>LAST_FETCH = Some 0, CACHED_EVENTS = [(utc_datetime 5000000000, ''CPI'')]\<rparr>
   = (Inr [], \<lparr>LAST_FETCH = Some 2000000000, CACHED_EVENTS = []\<rparr>,
      [Print DebugRefreshing, HttpGet, Print (DebugFetched 0)])
   \<and> get_red_news
      (\<lambda>s. Some [\<lparr>name = ''VEVENT'', DESCRIPTION = Some ''Impact: High'', SUMMARY = Some ''NFP'',
                  DTSTART = None\<rparr>])
      (Returned \<lparr>status_code = 200, response_text = ''''\<rparr>) 2000000000
      \<lparr>LAST_FETCH = Some 0, CACHED_EVENTS = [(utc_datetime 5000000000, ''CPI'')]\<rparr>
   = (Inl AttributeError,
      \<lparr>LAST_FETCH = Some 0, CACHED_EVENTS = [(utc_datetime 5000000000, ''CPI'')]\<rparr>,
      [Print DebugRefreshing, HttpGet])"
  by (simp add: eval_defs)

section \<open>Time to live\<close>

text \<open>
  C3. When a fetch has succeeded at \<open>t\<close> and less than 15 minutes (900000000
  microseconds) have passed, \<open>get_red_news\<close> returns the stored events, leaves the cache
  as it was and makes no request. When no fetch has succeeded, or 15 minutes or more
  have passed, it makes the request.
\<close>

theorem get_red_news_ttl:
  "(LAST_FETCH c = Some t \<and> now - t < 900000000 \<longrightarrow>
      fst (get_red_news from_ical http now c) = Inr (CACHED_EVENTS c)
      \<and> fst (snd (get_red_news from_ical http now c)) = c
      \<and> HttpGet \<notin> set (snd (snd (get_red_news from_ical http now c))))
   \<and> (LAST_FETCH c = None \<or> (LAST_FETCH c = Some t \<and> 900000000 \<le> now - t) \<longrightarrow>
      HttpGet \<in> set (snd (snd (get_red_news from_ical http now c))))"
proof (intro conjI impI)
  assume "LAST_FETCH c = Some t \<and> now - t < 900000000"
  then have f: "is_fresh now c"
    by (simp add: is_fresh_def minutes_def CACHE_TTL_MINUTES_def)
  show "fst (get_red_news from_ical http now c) = Inr (CACHED_EVENTS c)"
    "fst (snd (get_red_news from_ical http now c)) = c"
    "HttpGet \<notin> set (snd (snd (get_red_news from_ical http now c)))"
    by (simp_all add: get_red_news_fresh[OF f])
next
  assume "LAST_FETCH c = None \<or> (LAST_FETCH c = Some t \<and> 900000000 \<le> now - t)"
  then have nf: "\<not> is_fresh now c"
    by (auto simp: is_fresh_def minutes_def CACHE_TTL_MINUTES_def)
  then consider "refresh_fails from_ical http"
    | comps where "refreshed_from from_ical http now c comps"
    using stale_cases[of from_ical http now c] by blast
  then show "HttpGet \<in> set (snd (snd (get_red_news from_ical http now c)))"
  proof cases
    case 1
    from get_red_news_stale_failed[OF nf this] show ?thesis by auto
  next
    case 2
    then show ?thesis
      by (simp add: get_red_news_refreshed[OF 2] split: sum.splits)
  qed
qed

text \<open>One microsecond before the 15 minutes are over there is no request; at 15 minutes,
  and with no earlier fetch, there is one.\<close>

theorem get_red_news_ttl_witness:
  "HttpGet \<notin> set (snd (snd (get_red_news (\<lambda>s. None) Raised 899999999
                                \<lparr>LAST_FETCH = Some 0, CACHED_EVENTS = []\<rparr>)))
   \<and> HttpGet \<in> set (snd (snd (get_red_news (\<lambda>s. None) Raised 900000000
                                \<lparr>LAST_FETCH = Some 0, CACHED_EVENTS = []\<rparr>)))
   \<and> HttpGet \<in> set (snd (snd (get_red_news (\<lambda>s. None) Raised 0
                                \<lparr>LAST_FETCH = None, CACHED_EVENTS = []\<rparr>)))"
  using get_red_news_ttl[of "\<lparr>LAST_FETCH = Some 0, CACHED_EVENTS = []\<rparr>" 0 899999999
      "\<lambda>s. None" Raised]
    get_red_news_ttl[of "\<lparr>LAST_FETCH = Some 0, CACHED_EVENTS = []\<rparr>" 0 900000000
      "\<lambda>s. None" Raised]
    get_red_news_ttl[of "\<lparr>LAST_FETCH = None, CACHED_EVENTS = []\<rparr>" 0 0 "\<lambda>s. None" Raised]
  by simp

section \<open>What the refresh keeps\<close>

text \<open>
  C4. Records that are not \<open>VEVENT\<close>s, and records whose description holds neither
  \<open>Impact: High\<close> nor \<open>High Impact Expected\<close>, are excluded: removing them from the parsed
  document changes nothing of what \<open>get_red_news\<close> does. Every event a refresh returns
  comes from a \<open>VEVENT\<close> whose description contains one of the two markers as a
  substring.
\<close>

theorem only_high_impact_events:
  "get_red_news (\<lambda>s. map_option (filter high_impact) (from_ical s)) http now c
     = get_red_news from_ical http now c
   \<and> (refreshed_from from_ical http now c comps \<longrightarrow>
        fst (get_red_news from_ical http now c) = Inr evs \<longrightarrow>
        (\<forall>e \<in> set evs. \<exists>r \<in> set comps.
            name r = ''VEVENT''
            \<and> ((\<exists>pre post. description_of r = pre @ ''Impact: High'' @ post)
                 \<or> (\<exists>pre post. description_of r = pre @ ''High Impact Expected'' @ post))
            \<and> snd e = summary_of r
            \<and> (\<exists>st. DTSTART r = Some st \<and> event_time_of st = Inr (fst e))))"
proof (intro conjI impI ballI)
  show "get_red_news (\<lambda>s. map_option (filter high_impact) (from_ical s)) http now c
     = get_red_news from_ical http now c"
  proof (cases http)
    case Raised
    then show ?thesis by (simp add: get_red_news_def)
  next
    case (Returned r)
    show ?thesis
    proof (cases "from_ical (response_text r)")
      case None
      then show ?thesis by (simp add: get_red_news_def Returned)
    next
      case (Some comps)
      then show ?thesis by (simp add: get_red_news_def Returned walk_loop_filter)
    qed
  qed
next
  fix e
  assume rf: "refreshed_from from_ical http now c comps"
    and g: "fst (get_red_news from_ical http now c) = Inr evs"
    and e: "e \<in> set evs"
  have "walk_loop (utc_datetime now) comps [] = Inr evs"
    using g get_red_news_refreshed[OF rf] by (auto split: sum.splits if_splits)
  from walk_loop_sound[OF this e]
  obtain r where "r \<in> set comps" "high_impact r" "snd e = summary_of r"
    "\<exists>st. DTSTART r = Some st \<and> event_time_of st = Inr (fst e)"
    by auto
  then show "\<exists>r \<in> set comps.
            name r = ''VEVENT''
            \<and> ((\<exists>pre post. description_of r = pre @ ''Impact: High'' @ post)
                 \<or> (\<exists>pre post. description_of r = pre @ ''High Impact Expected'' @ post))
            \<and> snd e = summary_of r
            \<and> (\<exists>st. DTSTART r = Some st \<and> event_time_of st = Inr (fst e))"
    unfolding high_impact_def str_contains_iff by blast
qed

text \<open>A document with a calendar header that carries a marker, one event for each
  marker and one event with neither: the two marked events are returned.\<close>

theorem only_high_impact_events_witness:
  "fst (get_red_news (\<lambda>s. Some
       [\<lparr>name = ''VCALENDAR'', DESCRIPTION = Some ''Impact: High'', SUMMARY = None,
         DTSTART = None\<rparr>,
        \<lparr>name = ''VEVENT'', DESCRIPTION = Some ''Impact: High'', SUMMARY = Some ''CPI'',
         DTSTART = Some (DateTime \<lparr>wall = 100, tzinfo = Some PytzUTC\<rparr>)\<rparr>,
        \<lparr>name = ''VEVENT'', DESCRIPTION = Some ''Impact: Low'', SUMMARY = Some ''PMI'',
         DTSTART = Some (DateTime \<lparr>wall = 200, tzinfo = Some PytzUTC\<rparr>)\<rparr>,
        \<lparr>name = ''VEVENT'', DESCRIPTION = Some ''USD. High Impact Expected.'',
         SUMMARY = Some ''NFP'',
         DTSTART = Some (DateTime \<lparr>wall = 300, tzinfo = Some PytzUTC\<rparr>)\<rparr>])
     (Returned \<lparr>status_code = 200, response_text = ''''\<rparr>) 0 initial_cache)
   = Inr [(\<lparr>wall = 100, tzinfo = Some PytzUTC\<rparr>, ''CPI''),
          (\<lparr>wall = 300, tzinfo = Some PytzUTC\<rparr>, ''NFP'')]"
  using only_high_impact_events[of "\<lambda>s. Some
       [\<lparr>name = ''VCALENDAR'', DESCRIPTION = Some ''Impact: High'', SUMMARY = None,
         DTSTART = None\<rparr>,
        \<lparr>name = ''VEVENT'', DESCRIPTION = Some ''Impact: High'', SUMMARY = Some ''CPI'',
         DTSTART = Some (DateTime \<lparr>wall = 100, tzinfo = Some PytzUTC\<rparr>)\<rparr>,
        \<lparr>name = ''VEVENT'', DESCRIPTION = Some ''Impact: Low'', SUMMARY = Some ''PMI'',
         DTSTART = Some (DateTime \<lparr>wall = 200, tzinfo = Some PytzUTC\<rparr>)\<rparr>,
        \<lparr>name = ''VEVENT'', DESCRIPTION = Some ''USD. High Impact Expected.'',
         SUMMARY = Some ''NFP'',
         DTSTART = Some (DateTime \<lparr>wall = 300, tzinfo = Some PytzUTC\<rparr>)\<rparr>]"
       "Returned \<lparr>status_code = 200, response_text = ''''\<rparr>" 0 initial_cache]
  by (simp add: eval_defs)

text \<open>
  C5. A refresh at instant \<open>now\<close> gets through the loop over the components, and stores
  its list, exactly when every high-impact record of the document has a date or datetime
  start. In the stored list every event time is after \<open>now\<close> (an event at \<open>now\<close> itself is
  dropped), and every high-impact record whose event time is after \<open>now\<close> is kept. The
  call then returns that list, unless one of its first five events cannot be converted
  to the display zone: then OverflowError escapes, with the list stored.
\<close>

theorem only_future_events:
  assumes "refreshed_from from_ical http now c comps"
    and "get_red_news from_ical http now c = (res, c', tr)"
  shows "((LAST_FETCH c' = Some now) \<longleftrightarrow>
            (\<forall>r \<in> set comps. high_impact r \<longrightarrow> (\<exists>st. DTSTART r = Some st \<and> st \<noteq> OtherValue)))
     \<and> (LAST_FETCH c' = Some now \<longrightarrow>
          (\<forall>e \<in> set (CACHED_EVENTS c'). now < utc_instant (fst e))
          \<and> (\<forall>r \<in> set comps. \<forall>st t.
                high_impact r \<and> DTSTART r = Some st \<and> event_time_of st = Inr t
                \<and> now < utc_instant t
                \<longrightarrow> (t, summary_of r) \<in> set (CACHED_EVENTS c')))
     \<and> ((\<exists>evs. res = Inr evs) \<longleftrightarrow>
            LAST_FETCH c' = Some now
            \<and> \<not> list_ex (\<lambda>e. astimezone_overflows (fst e)) (take 5 (CACHED_EVENTS c')))
     \<and> (\<forall>evs. res = Inr evs \<longrightarrow>
          evs = CACHED_EVENTS c'
          \<and> (\<forall>e \<in> set evs. now < utc_instant (fst e))
          \<and> (\<forall>r \<in> set comps. \<forall>st t.
                high_impact r \<and> DTSTART r = Some st \<and> event_time_of st = Inr t
                \<and> now < utc_instant t
                \<longrightarrow> (t, summary_of r) \<in> set evs))"
proof -
  have old: "LAST_FETCH c \<noteq> Some now"
    using assms(1) by (auto simp: refreshed_from_def is_fresh_def minutes_def CACHE_TTL_MINUTES_def)
  have keep: "(\<forall>e \<in> set evs. now < utc_instant (fst e))
          \<and> (\<forall>r \<in> set comps. \<forall>st t.
                high_impact r \<and> DTSTART r = Some st \<and> event_time_of st = Inr t
                \<and> now < utc_instant t
                \<longrightarrow> (t, summary_of r) \<in> set evs)"
    if w: "walk_loop (utc_datetime now) comps [] = Inr evs" for evs
  proof -
    have a: "\<forall>e \<in> set evs. now < utc_instant (fst e)"
      using walk_loop_sound[OF w] by auto
    have b: "\<forall>r \<in> set comps. \<forall>st t.
           high_impact r \<and> DTSTART r = Some st \<and> event_time_of st = Inr t \<and> now < utc_instant t
           \<longrightarrow> (t, summary_of r) \<in> set evs"
      using walk_loop_complete[OF w] by blast
    show ?thesis using a b by blast
  qed
  show ?thesis
  proof (cases "walk_loop (utc_datetime now) comps []")
    case (Inl e)
    have nwf: "\<not> (\<forall>r \<in> set comps. high_impact r \<longrightarrow> (\<exists>st. DTSTART r = Some st \<and> st \<noteq> OtherValue))"
      using walk_loop_returns[of comps now "[]"] Inl by auto
    have "res = Inl e" "c' = c"
      using assms(2) by (simp_all add: get_red_news_refreshed[OF assms(1)] Inl)
    then show ?thesis using nwf old by simp
  next
    case (Inr events)
    have wf: "\<forall>r \<in> set comps. high_impact r \<longrightarrow> (\<exists>st. DTSTART r = Some st \<and> st \<noteq> OtherValue)"
      using walk_loop_returned[OF Inr] .
    have c': "c' = \<lparr>LAST_FETCH = Some now, CACHED_EVENTS = events\<rparr>"
      and res: "res = (if list_ex (\<lambda>e. astimezone_overflows (fst e)) (take 5 events)
                       then Inl OverflowError else Inr events)"
      using assms(2) by (simp_all add: get_red_news_refreshed[OF assms(1)] Inr)
    show ?thesis
      using wf keep[OF Inr] by (simp add: c' res, blast)
  qed
qed

text \<open>Three high-impact events, one microsecond before \<open>now\<close>, at \<open>now\<close> and one
  microsecond after it: the last one alone is kept.\<close>

theorem only_future_events_witness:
  "get_red_news (\<lambda>s. Some
       [\<lparr>name = ''VEVENT'', DESCRIPTION = Some ''Impact: High'', SUMMARY = Some ''before'',
         DTSTART = Some (DateTime \<lparr>wall = 999, tzinfo = Some PytzUTC\<rparr>)\<rparr>,
        \<lparr>name = ''VEVENT'', DESCRIPTION = Some ''Impact: High'', SUMMARY = Some ''at'',
         DTSTART = Some (DateTime \<lparr>wall = 1000, tzinfo = Some PytzUTC\<rparr>)\<rparr>,
        \<lparr>name = ''VEVENT'', DESCRIPTION = Some ''Impact: High'', SUMMARY = Some ''after'',
         DTSTART = Some (DateTime \<lparr>wall = 1001, tzinfo = Some PytzUTC\<rparr>)\<rparr>])
     (Returned \<lparr>status_code = 200, response_text = ''''\<rparr>) 1000 initial_cache
   = (Inr [(\<lparr>wall = 1001, tzinfo = Some PytzUTC\<rparr>, ''after'')],
      \<lparr>LAST_FETCH = Some 1000,
       CACHED_EVENTS = [(\<lparr>wall = 1001, tzinfo = Some PytzUTC\<rparr>, ''after'')]\<rparr>,
      [Print DebugRefreshing, HttpGet, Print (DebugFetched 1),
       Print (EventLine 1 ''after'' \<lparr>wall = 1001, tzinfo = Some PytzUTC\<rparr>)])"
proof -
  let ?comps = "[\<lparr>name = ''VEVENT'', DESCRIPTION = Some ''Impact: High'', SUMMARY = Some ''before'',
         DTSTART = Some (DateTime \<lparr>wall = 999, tzinfo = Some PytzUTC\<rparr>)\<rparr>,
        \<lparr>name = ''VEVENT'', DESCRIPTION = Some ''Impact: High'', SUMMARY = Some ''at'',
         DTSTART = Some (DateTime \<lparr>wall = 1000, tzinfo = Some PytzUTC\<rparr>)\<rparr>,
        \<lparr>name = ''VEVENT'', DESCRIPTION = Some ''Impact: High'', SUMMARY = Some ''after'',
         DTSTART = Some (DateTime \<lparr>wall = 1001, tzinfo = Some PytzUTC\<rparr>)\<rparr>]"
  let ?http = "Returned \<lparr>status_code = 200, response_text = ''''\<rparr>"
  let ?e = "(\<lparr>wall = 1001, tzinfo = Some PytzUTC\<rparr>, ''after'')"
  let ?out = "(Inr [?e], \<lparr>LAST_FETCH = Some 1000, CACHED_EVENTS = [?e]\<rparr>,
      [Print DebugRefreshing, HttpGet, Print (DebugFetched 1),
       Print (EventLine 1 ''after'' \<lparr>wall = 1001, tzinfo = Some PytzUTC\<rparr>)])"
  have r: "refreshed_from (\<lambda>s. Some ?comps) ?http 1000 initial_cache ?comps"
    by (simp add: refreshed_from_def is_fresh_def initial_cache_def raise_for_status_def)
  have g: "get_red_news (\<lambda>s. Some ?comps) ?http 1000 initial_cache = ?out"
    by (simp add: eval_defs)
  have "\<forall>e \<in> set [?e]. 1000 < utc_instant (fst e)"
    using only_future_events[OF r g] by simp
  then show ?thesis using g by simp
qed

section \<open>Start times\<close>

text \<open>
  C7. The event time of a start value: an aware datetime is taken as it is; a naive
  datetime keeps its reading and gets \<open>pytz.UTC\<close>, at offset 0; a date becomes midnight of
  that day with \<open>pytz.UTC\<close>. Every event time so produced is aware, and so is every event
  time that \<open>get_red_news\<close> returns from a cache whose event times are aware.
\<close>

theorem event_time_normalised:
  "(aware d \<longrightarrow> event_time_of (DateTime d) = Inr d)
   \<and> (\<not> aware d \<longrightarrow> event_time_of (DateTime d) = Inr (d\<lparr>tzinfo := Some PytzUTC\<rparr>))
   \<and> event_time_of (Date day) = Inr \<lparr>wall = day * 86400000000, tzinfo = Some PytzUTC\<rparr>
   \<and> utcoffset PytzUTC = 0
   \<and> (event_time_of start = Inr t \<longrightarrow> aware t)
   \<and> (cache_aware c \<longrightarrow> get_red_news from_ical http now c = (Inr events, c', tr) \<longrightarrow>
        (\<forall>e \<in> set events. aware (fst e)))"
  using event_time_of_aware[of start t] get_red_news_aware[of c from_ical http now events c' tr]
  by (auto simp: event_time_of_def aware_def list_all_iff)

text \<open>A datetime at offset +05:30, a naive datetime and the date two days after the
  epoch.\<close>

theorem event_time_normalised_witness:
  "event_time_of (DateTime \<lparr>wall = 7, tzinfo = Some (Zone 1 19800000000)\<rparr>)
      = Inr \<lparr>wall = 7, tzinfo = Some (Zone 1 19800000000)\<rparr>
   \<and> event_time_of (DateTime \<lparr>wall = 7, tzinfo = None\<rparr>) = Inr \<lparr>wall = 7, tzinfo = Some PytzUTC\<rparr>
   \<and> event_time_of (Date 2) = Inr \<lparr>wall = 172800000000, tzinfo = Some PytzUTC\<rparr>
   \<and> aware \<lparr>wall = 7, tzinfo = Some PytzUTC\<rparr>"
  using event_time_normalised[of "\<lparr>wall = 7, tzinfo = Some (Zone 1 19800000000)\<rparr>" 2
      "DateTime \<lparr>wall = 7, tzinfo = None\<rparr>" "\<lparr>wall = 7, tzinfo = Some PytzUTC\<rparr>"]
    event_time_normalised[of "\<lparr>wall = 7, tzinfo = None\<rparr>"]
  by (simp add: aware_def)

section \<open>An unresolved channel\<close>

text \<open>
  C8. When the channel does not resolve, the tick prints its warning and ends: it raises
  nothing, sends nothing, makes no request and leaves the cache as it was.
\<close>

theorem check_news_channel_unavailable:
  "check_news from_ical None now now' http c = (None, c, [Print WarnChannelNotFound])"
  by (simp add: check_news_def)

theorem check_news_channel_unavailable_witness:
  "check_news (\<lambda>s. None) None 0 0 Raised initial_cache
     = (None, initial_cache, [Print WarnChannelNotFound])"
  by (rule check_news_channel_unavailable)

section \<open>The accessor returns the cache it leaves\<close>

text \<open>
  C9. Whatever branch \<open>get_red_news\<close> takes, the list it returns equals \<open>CACHED_EVENTS\<close>
  as the call leaves it.
\<close>

theorem get_red_news_returns_cache:
  assumes "get_red_news from_ical http now c = (Inr events, c', tr)"
  shows "events = CACHED_EVENTS c'"
  using assms by (rule get_red_news_result)

text \<open>A first, successful refresh.\<close>

theorem get_red_news_returns_cache_witness:
  "[(\<lparr>wall = 100, tzinfo = Some PytzUTC\<rparr>, ''CPI'')]
     = CACHED_EVENTS
         \<lparr>LAST_FETCH = Some 0,
          CACHED_EVENTS = [(\<lparr>wall = 100, tzinfo = Some PytzUTC\<rparr>, ''CPI'')]\<rparr>"
proof -
  have g: "get_red_news
      (\<lambda>s. Some [\<lparr>name = ''VEVENT'', DESCRIPTION = Some ''Impact: High'', SUMMARY = Some ''CPI'',
                  DTSTART = Some (DateTime \<lparr>wall = 100, tzinfo = None\<rparr>)\<rparr>])
      (Returned \<lparr>status_code = 200, response_text = ''''\<rparr>) 0 initial_cache
    = (Inr [(\<lparr>wall = 100, tzinfo = Some PytzUTC\<rparr>, ''CPI'')],
       \<lparr>LAST_FETCH = Some 0,
        CACHED_EVENTS = [(\<lparr>wall = 100, tzinfo = Some PytzUTC\<rparr>, ''CPI'')]\<rparr>,
       [Print DebugRefreshing, HttpGet, Print (DebugFetched 1),
        Print (EventLine 1 ''CPI'' \<lparr>wall = 100, tzinfo = Some PytzUTC\<rparr>)])"
    by (simp add: eval_defs)
  show ?thesis
    by (rule get_red_news_returns_cache[OF g])
qed

section \<open>The command\<close>




text \<open>
  C10. A message in the alert channel that is not the client's own runs the query
  exactly when its content, lowercased, starts with \<open>!nextnews\<close>: that is, when it is some
  spelling of the command word in any mix of cases followed by any text. The query
  goes through \<open>get_red_news\<close>: it leaves the cache that call leaves and its effects
  start with that call's. Any other content does nothing.
\<close>

theorem on_message_prefix_command:
  assumes "author msg \<noteq> client_user" and "channel_id msg = CHANNEL_ID"
  shows "on_message list_sort from_ical client_user now http msg c =
           (if \<exists>cmd trailing. content msg = cmd @ trailing \<and> lower cmd = ''!nextnews''
            then next_news list_sort from_ical http now c
            else (None, c, []))
     \<and> fst (snd (next_news list_sort from_ical http now c))
         = fst (snd (get_red_news from_ical http now c))
     \<and> (\<exists>tr'. snd (snd (next_news list_sort from_ical http now c))
                 = snd (snd (get_red_news from_ical http now c)) @ tr')"
proof -
  obtain res c' tr where g: "get_red_news from_ical http now c = (res, c', tr)"
    by (cases "get_red_news from_ical http now c")
  have 1: "on_message list_sort from_ical client_user now http msg c =
           (if \<exists>cmd trailing. content msg = cmd @ trailing \<and> lower cmd = ''!nextnews''
            then next_news list_sort from_ical http now c
            else (None, c, []))"
    using assms unfolding startswith_lower_iff[symmetric] by (simp add: on_message_def)
  have 2: "fst (snd (next_news list_sort from_ical http now c)) = c'"
    by (simp add: next_news_def g split: sum.splits)
  have 3: "\<exists>tr'. snd (snd (next_news list_sort from_ical http now c)) = tr @ tr'"
    by (simp add: next_news_def g split: sum.splits)
  show ?thesis using 1 2 3 by (simp add: g)
qed

text \<open>The command in mixed case with trailing text, before any fetch and with the feed
  unreachable; and a message that only mentions the command.\<close>

theorem on_message_prefix_command_witness:
  "on_message insertion_sort (\<lambda>s. None) 0 0 Raised
      \<lparr>author = 1, channel_id = CHANNEL_ID, content = ''!NextNews please''\<rparr> initial_cache
     = (None, initial_cache,
        [Print DebugRefreshing, HttpGet, Print ErrorCouldNotFetch, Send NoUpcomingNews])
   \<and> on_message insertion_sort (\<lambda>s. None) 0 0 Raised
      \<lparr>author = 1, channel_id = CHANNEL_ID, content = ''try !nextnews''\<rparr> initial_cache
     = (None, initial_cache, [])"
proof -
  let ?m = "\<lparr>author = 1, channel_id = CHANNEL_ID, content = ''!NextNews please''\<rparr>"
  let ?n = "\<lparr>author = 1, channel_id = CHANNEL_ID, content = ''try !nextnews''\<rparr>"
  have a: "author ?m \<noteq> 0" "author ?n \<noteq> 0" by simp_all
  have b: "channel_id ?m = CHANNEL_ID" "channel_id ?n = CHANNEL_ID" by simp_all
  have "content ?m = ''!NextNews'' @ '' please'' \<and> lower ''!NextNews'' = ''!nextnews''"
    by (simp add: lower_def lower_char_def)
  then have p: "\<exists>cmd trailing. content ?m = cmd @ trailing \<and> lower cmd = ''!nextnews''"
    by blast
  have q: "\<not> (\<exists>cmd trailing. content ?n = cmd @ trailing \<and> lower cmd = ''!nextnews'')"
    unfolding startswith_lower_iff[symmetric]
    by (simp add: startswith_def lower_def lower_char_def)
  have 1: "on_message insertion_sort (\<lambda>s. None) 0 0 Raised ?m initial_cache
      = next_news insertion_sort (\<lambda>s. None) Raised 0 initial_cache"
    using on_message_prefix_command[OF a(1) b(1), of insertion_sort "\<lambda>s. None" 0 Raised
        initial_cache] p
    by (simp only: if_True)
  have 2: "on_message insertion_sort (\<lambda>s. None) 0 0 Raised ?n initial_cache
      = (None, initial_cache, [])"
    using on_message_prefix_command[OF a(2) b(2), of insertion_sort "\<lambda>s. None" 0 Raised
        initial_cache] q
    by (simp only: if_False)
  have 3: "next_news insertion_sort (\<lambda>s. None) Raised 0 initial_cache
      = (None, initial_cache,
         [Print DebugRefreshing, HttpGet, Print ErrorCouldNotFetch, Send NoUpcomingNews])"
    by (simp add: next_news_def eval_defs)
  show ?thesis using 1 2 3 by simp
qed

end
